theory Spec2Isabelle
  imports Main "HOL-Library.Word" "HOL-Library.Log_Nat"
begin

section \<open>Instant rate and instant delta over a sample window\<close>

text \<open>
  A shallow embedding of \<^verbatim>\<open>src/query/functions/temporal/rate.go\<close>: the operator
  factory \<^verbatim>\<open>NewRateOp\<close>, the processor \<^verbatim>\<open>rateNode\<close> with its method
  \<^verbatim>\<open>Process\<close>, the backward scan \<^verbatim>\<open>findNonNanIdx\<close> and the reducer
  \<^verbatim>\<open>instantValue\<close>.
\<close>

subsection \<open>Go's \<^verbatim>\<open>float64\<close>\<close>

text \<open>
  A \<^verbatim>\<open>float64\<close> is an IEEE 754 binary64 value. \<open>Finite s m e\<close> is the number
  \<open>(-1)\<^sup>s \<times> m \<times> 2\<^sup>e\<close> (both zeros included: \<open>m = 0\<close>), \<open>Infinity s\<close> is
  \<open>\<plusminus>\<infinity>\<close>, and \<open>NaN\<close> stands for every not-a-number bit pattern: the program looks
  at a NaN through \<^verbatim>\<open>math.IsNaN\<close> only, which does not tell payloads apart.

  A finite value is in canonical form when \<open>m < 2\<^sup>5\<^sup>3\<close>, \<open>-1074 \<le> e \<le> 971\<close> and
  either \<open>e = -1074\<close> (zero, subnormal, or the lowest binade) or \<open>2\<^sup>5\<^sup>2 \<le> m\<close>.
  Every operation below returns canonical values.
\<close>

datatype float64 = Finite bool nat int | Infinity bool | NaN

fun is_float64 :: "float64 \<Rightarrow> bool" where
  "is_float64 (Finite s m e) =
     (m < 2 ^ 53 \<and> - 1074 \<le> e \<and> e \<le> 971 \<and> (e = - 1074 \<or> 2 ^ 52 \<le> m))"
| "is_float64 (Infinity s) = True"
| "is_float64 NaN = True"

text \<open>\<^verbatim>\<open>math.IsNaN(f)\<close> and \<^verbatim>\<open>math.NaN()\<close>.\<close>

fun IsNaN :: "float64 \<Rightarrow> bool" where
  "IsNaN NaN = True"
| "IsNaN _ = False"

text \<open>
  Rounding to nearest, ties to even, of the exact magnitude \<open>m \<times> 2\<^sup>e\<close> with sign \<open>s\<close>.
  The target exponent \<open>e'\<close> leaves 53 significant bits, or fewer below the normal range;
  when bits are dropped, \<open>r\<close> is the dropped part and \<open>h\<close> half a unit in the last place.
\<close>

definition f64_round :: "bool \<Rightarrow> nat \<Rightarrow> int \<Rightarrow> float64" where
  "f64_round s m e =
     (if m = 0 then Finite s 0 (- 1074)
      else
        let e' = max (e + bitlen (int m) - 53) (- 1074);
            k = nat (e' - e);
            q = m div 2 ^ k;
            r = m mod 2 ^ k;
            h = 2 ^ (k - 1);
            q' = (if e' \<le> e then m * 2 ^ nat (e - e')
                  else if h < r \<or> (r = h \<and> odd q) then q + 1 else q);
            m'' = (if q' = 2 ^ 53 then 2 ^ 52 else q');
            e'' = (if q' = 2 ^ 53 then e' + 1 else e')
        in if 971 < e'' then Infinity s else Finite s m'' e'')"

text \<open>The conversion \<^verbatim>\<open>float64(i)\<close> of an integer, and \<^verbatim>\<open>math.Pow10(9)\<close>.\<close>

definition f64_of_int :: "int \<Rightarrow> float64" where
  "f64_of_int i = f64_round (i < 0) (nat \<bar>i\<bar>) 0"

definition Pow10_9 :: float64 where
  "Pow10_9 = f64_of_int 1000000000"

text \<open>
  Two finite values brought to their common (smaller) exponent, as signed integers:
  the comparison and the difference are then those of the integers.
\<close>

definition aligned :: "bool \<Rightarrow> nat \<Rightarrow> int \<Rightarrow> int \<Rightarrow> int" where
  "aligned s m e e0 = (if s then - 1 else 1) * int m * 2 ^ nat (e - e0)"

text \<open>The comparison \<^verbatim>\<open>a < b\<close>: false as soon as one side is NaN; \<open>-0 < +0\<close> is false.\<close>

fun f64_lt :: "float64 \<Rightarrow> float64 \<Rightarrow> bool" where
  "f64_lt NaN _ = False"
| "f64_lt _ NaN = False"
| "f64_lt (Infinity s) (Infinity t) = (s \<and> \<not> t)"
| "f64_lt (Infinity s) (Finite t m e) = s"
| "f64_lt (Finite s m e) (Infinity t) = (\<not> t)"
| "f64_lt (Finite s m e) (Finite t n f) =
     (aligned s m e (min e f) < aligned t n f (min e f))"

text \<open>The comparison \<^verbatim>\<open>a >= b\<close>, false as soon as one side is NaN.\<close>

fun f64_ge :: "float64 \<Rightarrow> float64 \<Rightarrow> bool" where
  "f64_ge NaN _ = False"
| "f64_ge _ NaN = False"
| "f64_ge (Infinity s) (Infinity t) = (t \<or> \<not> s)"
| "f64_ge (Infinity s) (Finite t m e) = (\<not> s)"
| "f64_ge (Finite s m e) (Infinity t) = t"
| "f64_ge (Finite s m e) (Finite t n f) =
     (aligned t n f (min e f) \<le> aligned s m e (min e f))"

text \<open>
  The difference \<^verbatim>\<open>a - b\<close>. An exact zero difference is \<open>+0\<close>, except \<open>(-0) - (+0)\<close>,
  which is \<open>-0\<close>.
\<close>

fun f64_sub :: "float64 \<Rightarrow> float64 \<Rightarrow> float64" where
  "f64_sub NaN _ = NaN"
| "f64_sub _ NaN = NaN"
| "f64_sub (Infinity s) (Infinity t) = (if s = t then NaN else Infinity s)"
| "f64_sub (Infinity s) (Finite t m e) = Infinity s"
| "f64_sub (Finite s m e) (Infinity t) = Infinity (\<not> t)"
| "f64_sub (Finite s m e) (Finite t n f) =
     (let d = aligned s m e (min e f) - aligned t n f (min e f)
      in if d = 0 then Finite (s \<and> \<not> t \<and> m = 0) 0 (- 1074)
         else f64_round (d < 0) (nat \<bar>d\<bar>) (min e f))"

text \<open>
  The quotient \<^verbatim>\<open>a / b\<close>. Division by zero does not panic on floats: it is an infinity,
  or NaN for \<open>0 / 0\<close>. The quotient of the magnitudes is taken with at least 55 bits and
  one more bit that records a remainder, so that rounding it rounds the exact quotient.
\<close>

fun f64_div :: "float64 \<Rightarrow> float64 \<Rightarrow> float64" where
  "f64_div NaN _ = NaN"
| "f64_div _ NaN = NaN"
| "f64_div (Infinity s) (Infinity t) = NaN"
| "f64_div (Infinity s) (Finite t m e) = Infinity (s \<noteq> t)"
| "f64_div (Finite s m e) (Infinity t) = Finite (s \<noteq> t) 0 (- 1074)"
| "f64_div (Finite s m e) (Finite t n f) =
     (if n = 0 then (if m = 0 then NaN else Infinity (s \<noteq> t))
      else
        let k = nat (max 0 (55 + bitlen (int n) - bitlen (int m)));
            q = (m * 2 ^ k) div n;
            r = (m * 2 ^ k) mod n
        in f64_round (s \<noteq> t) (2 * q + (if r = 0 then 0 else 1)) (e - f - int k - 1))"

subsection \<open>Memory, slices and panics\<close>

text \<open>
  A Go slice \<^verbatim>\<open>[]float64\<close> is a view of a backing array that the caller shares with
  the callee: \<open>array\<close> is the address of its first element, \<open>len\<close> the number of
  elements. The memory maps addresses to the \<^verbatim>\<open>float64\<close> cells. The contents of a
  slice in a memory is its \<open>window\<close>, oldest sample first.
\<close>

type_synonym addr = nat

type_synonym memory = "addr \<Rightarrow> float64"

record slice =
  array :: addr
  len :: nat

definition window :: "memory \<Rightarrow> slice \<Rightarrow> float64 list" where
  "window mem vals = map (\<lambda>i. mem (array vals + i)) [0..<len vals]"

text \<open>
  A function of the program takes the memory and returns it with its result, which is a
  value or the panic that stopped it.
\<close>

datatype panic = IndexOutOfRange | Panic string

type_synonym 'a go = "memory \<Rightarrow> (panic + 'a) \<times> memory"

definition return :: "'a \<Rightarrow> 'a go" where
  "return x mem = (Inr x, mem)"

definition bind :: "'a go \<Rightarrow> ('a \<Rightarrow> 'b go) \<Rightarrow> 'b go" where
  "bind m f mem = (case m mem of (Inl p, mem') \<Rightarrow> (Inl p, mem') | (Inr x, mem') \<Rightarrow> f x mem')"

text \<open>The indexing \<^verbatim>\<open>vals[i]\<close>: a panic when \<open>i\<close> is out of range.\<close>

definition index :: "slice \<Rightarrow> int \<Rightarrow> float64 go" where
  "index vals i mem =
     (if 0 \<le> i \<and> i < int (len vals) then (Inr (mem (array vals + nat i)), mem)
      else (Inl IndexOutOfRange, mem))"

subsection \<open>The window reducer\<close>

text \<open>
  \<^verbatim>\<open>findNonNanIdx(vals, startingIdx)\<close>: the loop \<^verbatim>\<open>for i := startingIdx; i >= 0; i--\<close>,
  with \<open>i\<close> as the argument of the recursion. Go's \<^verbatim>\<open>int\<close> is an \<open>int\<close> here: the
  loop counts down from an index of the slice to \<open>-1\<close> at most, so no operation wraps.
\<close>

function findNonNanIdx :: "slice \<Rightarrow> int \<Rightarrow> int go" where
  "findNonNanIdx vals i mem =
     (if 0 \<le> i then
        (case index vals i mem of
           (Inl p, mem') \<Rightarrow> (Inl p, mem')
         | (Inr v, mem') \<Rightarrow>
             if \<not> IsNaN v then (Inr i, mem') else findNonNanIdx vals (i - 1) mem')
      else (Inr (- 1), mem))"
  by pat_completeness auto
termination
  by (relation "measure (\<lambda>(vals, i, mem). nat (i + 1))") auto

declare findNonNanIdx.simps [simp del]

text \<open>
  \<^verbatim>\<open>instantValue(values, isRate, stepSize)\<close>. A \<^verbatim>\<open>time.Duration\<close> is a signed 64-bit
  count of nanoseconds.
\<close>

type_synonym Duration = "64 word"

definition instantValue :: "slice \<Rightarrow> bool \<Rightarrow> Duration \<Rightarrow> float64 go" where
  "instantValue values isRate stepSize =
     (let valuesLen = int (len values) in
      if valuesLen < 2 then return NaN
      else
        bind (findNonNanIdx values (valuesLen - 1)) (\<lambda>nonNanIdx.
        if nonNanIdx < 1 then return NaN
        else
          bind (index values nonNanIdx) (\<lambda>lastSample.
          bind (findNonNanIdx values (nonNanIdx - 1)) (\<lambda>nonNanIdx.
          if nonNanIdx = - 1 then return NaN
          else
            bind (index values nonNanIdx) (\<lambda>previousSample.
            let resultValue =
                  (if isRate \<and> f64_lt lastSample previousSample then lastSample
                   else f64_sub lastSample previousSample);
                resultValue =
                  (if isRate
                   then f64_div resultValue (f64_div (f64_of_int (sint stepSize)) Pow10_9)
                   else resultValue)
            in return resultValue)))))"

subsection \<open>The processor and the operator factory\<close>

definition IRateTemporalType :: string where
  "IRateTemporalType = ''irate''"

definition IDeltaTemporalType :: string where
  "IDeltaTemporalType = ''idelta''"

text \<open>
  The function value stored in a \<^verbatim>\<open>baseOp\<close>, which builds the processor of the operator
  (the type \<^verbatim>\<open>MakeProcessor\<close> of the package). This file has one such function,
  \<^verbatim>\<open>newRateNode\<close>.
\<close>

datatype MakeProcessor = NewRateNode

text \<open>An aggregation function over a window; \<^verbatim>\<open>NewRateOp\<close> passes none (\<^verbatim>\<open>nil\<close>).\<close>

type_synonym aggFunc = "float64 list \<Rightarrow> float64"

text \<open>
  Modelled from the spec: the struct \<^verbatim>\<open>baseOp\<close> is declared outside this file. It holds
  the mode token (the field \<^verbatim>\<open>operatorType\<close> that \<^verbatim>\<open>Process\<close> reads) and what
  \<^verbatim>\<open>NewRateOp\<close> hands to \<^verbatim>\<open>newBaseOp\<close>.
\<close>

record baseOp =
  operatorType :: string
  processorFn :: MakeProcessor
  aggFunc :: "aggFunc option"

text \<open>A Go \<^verbatim>\<open>error\<close> made by \<^verbatim>\<open>fmt.Errorf\<close>, with its formatted message.\<close>

datatype error = Errorf string

text \<open>
  Modelled from the spec: \<^verbatim>\<open>newBaseOp\<close> is defined outside this file. The spec gives
  the factory one failure, the unrecognised mode token, which \<^verbatim>\<open>NewRateOp\<close> itself
  rejects; on success the factory returns a processor closed over the resolved mode.
  So \<^verbatim>\<open>newBaseOp\<close> stores what it is given and returns no error.
\<close>

definition newBaseOp ::
  "'a list \<Rightarrow> string \<Rightarrow> MakeProcessor \<Rightarrow> aggFunc option \<Rightarrow> baseOp option \<times> error option" where
  "newBaseOp args optype fn agg =
     (Some \<lparr>operatorType = optype, processorFn = fn, aggFunc = agg\<rparr>, None)"

text \<open>
  \<^verbatim>\<open>NewRateOp(args, optype)\<close> returns the pair of Go: the parameters (or \<^verbatim>\<open>nil\<close>) and
  the error (or \<^verbatim>\<open>nil\<close>).
\<close>

definition NewRateOp :: "'a list \<Rightarrow> string \<Rightarrow> baseOp option \<times> error option" where
  "NewRateOp args optype =
     (if optype = IRateTemporalType \<or> optype = IDeltaTemporalType
      then newBaseOp args optype NewRateNode None
      else (None, Some (Errorf (''unknown rate type: '' @ optype))))"

text \<open>
  Modelled from the spec: the types \<^verbatim>\<open>TimeSpec\<close>, \<^verbatim>\<open>Options\<close> and \<^verbatim>\<open>Controller\<close>
  of package \<^verbatim>\<open>transform\<close> are declared outside this file. They are modelled as far
  as this file reads them: the step duration of the timing specification (the fixed
  interval between window positions), the timing specification of the options, and a
  controller that is only stored (a pointer: an address or \<^verbatim>\<open>nil\<close>).
\<close>

record TimeSpec =
  Step :: Duration

record Options =
  TimeSpec :: TimeSpec

type_synonym Controller = "addr option"

record rateNode =
  op :: baseOp
  controller :: Controller
  timeSpec :: TimeSpec

definition newRateNode :: "baseOp \<Rightarrow> Controller \<Rightarrow> Options \<Rightarrow> rateNode" where
  "newRateNode op' controller' opts =
     \<lparr>op = op', controller = controller', timeSpec = TimeSpec opts\<rparr>"

text \<open>Calling the function value stored in a \<^verbatim>\<open>baseOp\<close>.\<close>

fun call :: "MakeProcessor \<Rightarrow> baseOp \<Rightarrow> Controller \<Rightarrow> Options \<Rightarrow> rateNode" where
  "call NewRateNode = newRateNode"

text \<open>\<^verbatim>\<open>(r *rateNode) Process(values)\<close>: the switch on the mode token of the node.\<close>

definition Process :: "rateNode \<Rightarrow> slice \<Rightarrow> float64 go" where
  "Process r values =
     (if operatorType (op r) = IRateTemporalType
        then instantValue values True (Step (timeSpec r))
      else if operatorType (op r) = IDeltaTemporalType
        then instantValue values False (Step (timeSpec r))
      else (\<lambda>mem. (Inl (Panic ''unknown rate type''), mem)))"

subsection \<open>Vocabulary of the properties\<close>

text \<open>The non-gap samples of a window, in the order of the window.\<close>

abbreviation non_gaps :: "float64 list \<Rightarrow> float64 list" where
  "non_gaps w \<equiv> filter (\<lambda>v. \<not> IsNaN v) w"

text \<open>
  A memory that holds the samples \<open>xs\<close> from address \<open>a\<close> on (and gaps elsewhere), and
  the slice over these samples.
\<close>

definition stored :: "addr \<Rightarrow> float64 list \<Rightarrow> memory" where
  "stored a xs = (\<lambda>i. if a \<le> i \<and> i < a + length xs then xs ! (i - a) else NaN)"

definition slice_at :: "addr \<Rightarrow> float64 list \<Rightarrow> slice" where
  "slice_at a xs = \<lparr>array = a, len = length xs\<rparr>"

section \<open>Properties\<close>

subsection \<open>Floating-point facts\<close>

text \<open>
  Rounding leaves a value alone that fits the format: a mantissa of 53 bits with trailing
  zeros dropped (\<open>f64_round_shifted\<close>), or a shorter one padded (\<open>f64_round_exact\<close>).
  Dividing by one, or a value by itself, is then exact.
\<close>

lemma bitlen_eq: "2 ^ n \<le> x \<Longrightarrow> x < 2 ^ Suc n \<Longrightarrow> bitlen x = int n + 1"
proof (rule antisym)
  assume "x < 2 ^ Suc n"
  then show "bitlen x \<le> int n + 1"
    by (simp add: bitlen_le_iff_power nat_add_distrib)
next
  assume "2 ^ n \<le> x"
  then show "int n + 1 \<le> bitlen x"
    by (simp add: bitlen_ge_iff_power nat_add_distrib)
qed

lemma bitlen_normal: "2 ^ 52 \<le> m \<Longrightarrow> m < 2 ^ 53 \<Longrightarrow> bitlen (int m) = 53"
  using bitlen_eq [of 52 "int m"] by simp

lemma f64_round_shifted:
  assumes "2 ^ 52 \<le> m" "m < 2 ^ 53" "- 1074 \<le> e + int k" "e + int k \<le> 971"
  shows "f64_round s (m * 2 ^ k) e = Finite s m (e + int k)"
proof -
  have "0 < int m" using assms(1) by simp
  then have "bitlen (int m * 2 ^ k) = 53 + int k"
    using bitlen_pow2 [of "int m" k] bitlen_normal [OF assms(1,2)] by simp
  then have b: "bitlen (int (m * 2 ^ k)) = 53 + int k" by simp
  have e': "max (e + bitlen (int (m * 2 ^ k)) - 53) (- 1074) = e + int k"
    using b assms(3) by simp
  have k: "nat (e + int k - e) = k" by simp
  have q: "m * 2 ^ k div 2 ^ k = m" by simp
  have r: "m * 2 ^ k mod 2 ^ k = 0" by simp
  have m0: "m * 2 ^ k \<noteq> 0" using assms(1) by auto
  have ne: "m \<noteq> 2 ^ 53" using assms(2) by simp
  show ?thesis
  proof (cases "k = 0")
    case True
    with m0 ne assms(4) show ?thesis
      unfolding f64_round_def Let_def e' k q r by simp
  next
    case False
    then have "\<not> e + int k \<le> e" by simp
    with m0 ne assms(4) show ?thesis
      unfolding f64_round_def Let_def e' k q r by simp
  qed
qed

lemma f64_round_exact:
  assumes "2 ^ n \<le> m" "m < 2 ^ Suc n" "n \<le> 52"
    "- 1074 \<le> e + int n - 52" "e + int n - 52 \<le> 971"
  shows "f64_round s m e = Finite s (m * 2 ^ (52 - n)) (e + int n - 52)"
proof -
  have "int (2 ^ n) \<le> int m" "int m < int (2 ^ Suc n)"
    using assms(1,2) by (simp_all only: of_nat_le_iff of_nat_less_iff)
  then have "2 ^ n \<le> int m" "int m < 2 ^ Suc n"
    by simp_all
  then have b: "bitlen (int m) = int n + 1" by (rule bitlen_eq)
  have e': "max (e + bitlen (int m) - 53) (- 1074) = e + int n - 52"
    using b assms(4) by simp
  have le: "e + int n - 52 \<le> e" using assms(3) by simp
  have k: "nat (e - (e + int n - 52)) = 52 - n" using assms(3) by simp
  have "(0::nat) < 2 ^ n" by simp
  with assms(1) have m0: "m \<noteq> 0" by linarith
  have "m * 2 ^ (52 - n) < 2 ^ Suc n * 2 ^ (52 - n)"
    using assms(2) by (simp only: mult_less_cancel2 zero_less_power zero_less_numeral simp_thms)
  also have "Suc n + (52 - n) = 53"
    using assms(3) by simp
  then have "(2::nat) ^ Suc n * 2 ^ (52 - n) = 2 ^ 53"
    by (simp only: flip: power_add)
  finally have ne: "m * 2 ^ (52 - n) \<noteq> 2 ^ 53" by simp
  show ?thesis
    unfolding f64_round_def Let_def e' k
    using m0 ne le assms(5) by (simp only: if_False if_True simp_thms not_less [symmetric])
qed

lemma f64_div_one:
  assumes "2 ^ 52 \<le> m" "m < 2 ^ 53" "- 1074 \<le> e" "e \<le> 971"
  shows "f64_div (Finite s m e) (Finite False (2 ^ 52) (- 52)) = Finite s m e"
proof -
  have b1: "bitlen (int (2 ^ 52)) = 53" by (rule bitlen_normal) simp_all
  have bm: "bitlen (int m) = 53" using assms(1,2) by (rule bitlen_normal)
  have k: "nat (max 0 (55 + bitlen (int (2 ^ 52)) - bitlen (int m))) = 55"
    unfolding b1 bm by simp
  have q: "m * 2 ^ 55 div 2 ^ 52 = m * 2 ^ 3" by simp
  have r: "m * 2 ^ 55 mod 2 ^ 52 = 0" by simp
  have "f64_div (Finite s m e) (Finite False (2 ^ 52) (- 52)) = f64_round s (m * 2 ^ 4) (e - 4)"
    unfolding f64_div.simps Let_def k q r by (simp add: mult.commute)
  also have "\<dots> = Finite s m e"
    using f64_round_shifted [of m "e - 4" 4 s] assms by simp
  finally show ?thesis .
qed

lemma f64_div_self:
  assumes "2 ^ 52 \<le> m" "m < 2 ^ 53"
  shows "f64_div (Finite s m e) (Finite s m e) = Finite False (2 ^ 52) (- 52)"
proof -
  have bm: "bitlen (int m) = 53" using assms(1,2) by (rule bitlen_normal)
  have k: "nat (max 0 (55 + bitlen (int m) - bitlen (int m))) = 55" by simp
  have m0: "m \<noteq> 0" using assms(1) by auto
  then have q: "m * 2 ^ 55 div m = 2 ^ 55" by simp
  have r: "m * 2 ^ 55 mod m = 0" by simp
  have "f64_div (Finite s m e) (Finite s m e) = f64_round False (2 ^ 52 * 2 ^ 4) (- 56)"
    using m0 unfolding f64_div.simps Let_def k q r by simp
  also have "\<dots> = Finite False (2 ^ 52) (- 52)"
    using f64_round_shifted [of "2 ^ 52" "- 56" 4 False] by simp
  finally show ?thesis .
qed

lemma f64_of_int_pos:
  assumes "2 ^ n \<le> i" "i < 2 ^ Suc n" "n \<le> 52"
  shows "f64_of_int i = Finite False (nat i * 2 ^ (52 - n)) (int n - 52)"
proof -
  have "(0::int) < 2 ^ n" by simp
  with assms(1) have "0 \<le> i" by linarith
  then have "2 ^ n \<le> nat i" "nat i < 2 ^ Suc n" "\<not> i < 0" "nat \<bar>i\<bar> = nat i"
    using assms(1,2) by (simp_all add: le_nat_iff nat_less_iff)
  then show ?thesis
    using f64_round_exact [of n "nat i" 0 False] assms(3) by (simp add: f64_of_int_def)
qed

lemma f64_of_int_neg:
  assumes "2 ^ n \<le> i" "i < 2 ^ Suc n" "n \<le> 52"
  shows "f64_of_int (- i) = Finite True (nat i * 2 ^ (52 - n)) (int n - 52)"
proof -
  have "(0::int) < 2 ^ n" by simp
  with assms(1) have "0 < i" by linarith
  then have "2 ^ n \<le> nat i" "nat i < 2 ^ Suc n" "- i < 0" "nat \<bar>- i\<bar> = nat i"
    using assms(1,2) by (simp_all add: le_nat_iff nat_less_iff)
  then show ?thesis
    using f64_round_exact [of n "nat i" 0 True] assms(3) by (simp add: f64_of_int_def)
qed

text \<open>The values of the examples, and the arithmetic on them.\<close>

lemma f64_1: "f64_of_int 1 = Finite False (2 ^ 52) (- 52)"
  using f64_of_int_pos [of 0 1] by simp
lemma f64_5: "f64_of_int 5 = Finite False (5 * 2 ^ 50) (- 50)"
  using f64_of_int_pos [of 2 5] by simp
lemma f64_10: "f64_of_int 10 = Finite False (10 * 2 ^ 49) (- 49)"
  using f64_of_int_pos [of 3 10] by simp
lemma f64_20: "f64_of_int 20 = Finite False (20 * 2 ^ 48) (- 48)"
  using f64_of_int_pos [of 4 20] by simp
lemma f64_30: "f64_of_int 30 = Finite False (30 * 2 ^ 48) (- 48)"
  using f64_of_int_pos [of 4 30] by simp
lemma f64_40: "f64_of_int 40 = Finite False (40 * 2 ^ 47) (- 47)"
  using f64_of_int_pos [of 5 40] by simp
lemma f64_50: "f64_of_int 50 = Finite False (50 * 2 ^ 47) (- 47)"
  using f64_of_int_pos [of 5 50] by simp
lemma f64_m45: "f64_of_int (- 45) = Finite True (45 * 2 ^ 47) (- 47)"
  using f64_of_int_neg [of 5 45] by simp
lemma f64_1e9: "f64_of_int 1000000000 = Finite False (1000000000 * 2 ^ 23) (- 23)"
  using f64_of_int_pos [of 29 1000000000] by simp

lemma sint_1e9: "sint (1000000000 :: 64 word) = 1000000000"
  by simp

lemma one_second: "f64_div (f64_of_int 1000000000) Pow10_9 = f64_of_int 1"
  using f64_div_self [of "1000000000 * 2 ^ 23" False "- 23"]
  by (simp add: Pow10_9_def f64_1e9 f64_1)

lemma lt_5_50: "f64_lt (f64_of_int 5) (f64_of_int 50)"
  by (simp add: f64_5 f64_50 aligned_def)

lemma div_5_1: "f64_div (f64_of_int 5) (f64_of_int 1) = f64_of_int 5"
  using f64_div_one [of "5 * 2 ^ 50" "- 50" False] by (simp add: f64_5 f64_1)

lemma ge_20_10: "f64_ge (f64_of_int 20) (f64_of_int 10)"
  by (simp add: f64_20 f64_10 aligned_def)

lemma sub_20_10: "f64_sub (f64_of_int 20) (f64_of_int 10) = f64_of_int 10"
  using f64_round_shifted [of "10 * 2 ^ 49" "- 49" 0 False]
  by (simp add: f64_20 f64_10 aligned_def)

lemma div_10_1: "f64_div (f64_of_int 10) (f64_of_int 1) = f64_of_int 10"
  using f64_div_one [of "10 * 2 ^ 49" "- 49" False] by (simp add: f64_10 f64_1)

lemma sub_5_50: "f64_sub (f64_of_int 5) (f64_of_int 50) = f64_of_int (- 45)"
  using f64_round_shifted [of "45 * 2 ^ 47" "- 50" 3 True]
  by (simp add: f64_5 f64_50 f64_m45 aligned_def)

lemma lt_40_10: "\<not> f64_lt (f64_of_int 40) (f64_of_int 10)"
  by (simp add: f64_40 f64_10 aligned_def)

lemma sub_40_10: "f64_sub (f64_of_int 40) (f64_of_int 10) = f64_of_int 30"
  using f64_round_shifted [of "30 * 2 ^ 48" "- 49" 1 False]
  by (simp add: f64_40 f64_10 f64_30 aligned_def)

lemma div_30_1: "f64_div (f64_of_int 30) (f64_of_int 1) = f64_of_int 30"
  using f64_div_one [of "30 * 2 ^ 48" "- 48" False] by (simp add: f64_30 f64_1)

lemma f64_ge_iff: "\<not> IsNaN a \<Longrightarrow> \<not> IsNaN b \<Longrightarrow> f64_ge a b \<longleftrightarrow> \<not> f64_lt a b"
  by (cases a; cases b) auto

lemma not_IsNaN_f64_round: "\<not> IsNaN (f64_round s m e)"
  by (simp add: f64_round_def Let_def)

lemma not_IsNaN_f64_of_int: "\<not> IsNaN (f64_of_int i)"
  by (simp add: f64_of_int_def not_IsNaN_f64_round)

text \<open>Every result of the arithmetic is a canonical value.\<close>

lemma bitlen_of_pos:
  assumes "0 < m"
  obtains n where "2 ^ n \<le> m" "m < 2 ^ Suc n" "bitlen (int m) = int n + 1"
proof -
  define n where "n = nat (bitlen (int m) - 1)"
  have pos: "0 < int m" using assms by simp
  have "1 \<le> bitlen (int m)"
    using pos by (simp add: bitlen_ge_iff_power)
  then have b: "bitlen (int m) = int n + 1" and sn: "nat (bitlen (int m)) = Suc n"
    by (simp_all add: n_def)
  from bitlen_bounds [OF pos]
  have "2 ^ n \<le> int m" "int m < 2 ^ Suc n"
    by (simp_all only: sn flip: n_def)
  then have "int (2 ^ n) \<le> int m" "int m < int (2 ^ Suc n)"
    by simp_all
  then have "2 ^ n \<le> m" "m < 2 ^ Suc n"
    by (simp_all only: of_nat_le_iff of_nat_less_iff)
  then show ?thesis using b by (rule that)
qed

lemma is_float64_pack:
  assumes "q \<le> 2 ^ 53" "- 1074 \<le> e" "e = - 1074 \<or> 2 ^ 52 \<le> q"
  shows "is_float64
    (if 971 < (if q = 2 ^ 53 then e + 1 else e) then Infinity s
     else Finite s (if q = 2 ^ 53 then 2 ^ 52 else q) (if q = 2 ^ 53 then e + 1 else e))"
  using assms by auto

lemma div_pow2_less:
  fixes m :: nat
  assumes "m < 2 ^ a" "a \<le> b + k"
  shows "m div 2 ^ k < 2 ^ b"
proof -
  have "(2::nat) ^ a \<le> 2 ^ (b + k)" using assms(2) by (rule power_increasing) simp_all
  with assms(1) have "m < 2 ^ b * 2 ^ k" by (simp add: power_add)
  then show ?thesis by (rule less_mult_imp_div_less)
qed

lemma div_pow2_ge:
  fixes m :: nat
  assumes "2 ^ (b + k) \<le> m"
  shows "2 ^ b \<le> m div 2 ^ k"
proof -
  have "(2::nat) ^ (b + k) div 2 ^ k \<le> m div 2 ^ k"
    using assms by (rule div_le_mono)
  then show ?thesis by (simp add: power_add)
qed

lemma is_float64_round: "is_float64 (f64_round s m e)"
proof (cases "m = 0")
  case True
  then show ?thesis by (simp add: f64_round_def)
next
  case False
  then obtain n where n: "2 ^ n \<le> m" "m < 2 ^ Suc n" "bitlen (int m) = int n + 1"
    using bitlen_of_pos [of m] by auto
  define e' where "e' = max (e + int n - 52) (- 1074)"
  define k where "k = nat (e' - e)"
  define q where "q = (if e' \<le> e then m * 2 ^ nat (e - e')
      else if 2 ^ (k - 1) < m mod 2 ^ k \<or> (m mod 2 ^ k = 2 ^ (k - 1) \<and> odd (m div 2 ^ k))
        then m div 2 ^ k + 1 else m div 2 ^ k)"
  have E: "max (e + bitlen (int m) - 53) (- 1074) = e'"
    by (simp add: n(3) e'_def)
  have R: "f64_round s m e =
    (if 971 < (if q = 2 ^ 53 then e' + 1 else e') then Infinity s
     else Finite s (if q = 2 ^ 53 then 2 ^ 52 else q) (if q = 2 ^ 53 then e' + 1 else e'))"
    unfolding f64_round_def Let_def E using False by (simp only: q_def k_def if_False)
  have lo: "- 1074 \<le> e'" by (simp add: e'_def)
  have up: "\<not> e' \<le> e \<Longrightarrow> q \<le> m div 2 ^ k + 1" and dn: "\<not> e' \<le> e \<Longrightarrow> m div 2 ^ k \<le> q"
    by (simp_all add: q_def)
  have "q \<le> 2 ^ 53 \<and> (e' = - 1074 \<or> 2 ^ 52 \<le> q)"
  proof (cases "- 1074 \<le> e + int n - 52")
    case normal: True
    then have e': "e' = e + int n - 52" by (simp add: e'_def)
    show ?thesis
    proof (cases "n \<le> 52")
      case True
      then have le: "e' \<le> e" and sh: "nat (e - e') = 52 - n" by (simp_all add: e')
      then have q: "q = m * 2 ^ (52 - n)" by (simp add: q_def)
      have p: "(2::nat) ^ n * 2 ^ (52 - n) = 2 ^ 52" "(2::nat) ^ Suc n * 2 ^ (52 - n) = 2 ^ 53"
        using True by (simp_all add: power_add [symmetric] del: power_Suc)
      have "2 ^ n * 2 ^ (52 - n) \<le> m * 2 ^ (52 - n)"
        using n(1) by (rule mult_le_mono1)
      then have lower: "2 ^ 52 \<le> q" by (simp only: q p)
      have "m * 2 ^ (52 - n) < 2 ^ Suc n * 2 ^ (52 - n)"
        using n(2) by (simp only: mult_less_cancel2 zero_less_power zero_less_numeral simp_thms)
      then have "q < 2 ^ 53" by (simp only: q p)
      with lower show ?thesis by simp
    next
      case False
      then have nle: "\<not> e' \<le> e" and kk: "k = n - 52" by (simp_all add: e' k_def)
      from False have nk: "n = 52 + k" and sn: "Suc n \<le> 53 + k" by (simp_all add: kk)
      from n(2) sn have "m div 2 ^ k < 2 ^ 53" by (rule div_pow2_less)
      moreover from n(1) have "2 ^ (52 + k) \<le> m" by (simp only: nk)
      then have "2 ^ 52 \<le> m div 2 ^ k" by (rule div_pow2_ge)
      ultimately have "2 ^ 52 \<le> m div 2 ^ k" "m div 2 ^ k < 2 ^ 53" by -
      with up [OF nle] dn [OF nle] show ?thesis by linarith
    qed
  next
    case subnormal: False
    then have e': "e' = - 1074" by (simp add: e'_def)
    show ?thesis
    proof (cases "e' \<le> e")
      case True
      then have q: "q = m * 2 ^ nat (e - e')" by (simp add: q_def)
      from subnormal True have "Suc n + nat (e - e') \<le> 52" by (simp add: e')
      then have le52: "(2::nat) ^ (Suc n + nat (e - e')) \<le> 2 ^ 52"
        by (rule power_increasing) simp
      have "m * 2 ^ nat (e - e') < 2 ^ Suc n * 2 ^ nat (e - e')"
        using n(2) by (simp only: mult_less_cancel2 zero_less_power zero_less_numeral simp_thms)
      from this le52 have "q < 2 ^ 52" unfolding q power_add by (rule less_le_trans)
      then show ?thesis using e' by simp
    next
      case False
      from subnormal False have "Suc n \<le> 52 + k" by (simp add: e' k_def)
      with n(2) have "m div 2 ^ k < 2 ^ 52" by (rule div_pow2_less)
      with up [OF False] show ?thesis using e' by simp
    qed
  qed
  then show ?thesis
    unfolding R using lo by (intro is_float64_pack) simp_all
qed

lemma is_float64_of_int: "is_float64 (f64_of_int i)"
  by (simp add: f64_of_int_def is_float64_round)

lemma is_float64_sub: "is_float64 (f64_sub a b)"
  by (cases a; cases b) (simp_all add: Let_def is_float64_round)

lemma is_float64_div: "is_float64 (f64_div a b)"
  by (cases a; cases b) (simp_all add: Let_def is_float64_round)

subsection \<open>The window of a slice\<close>

lemma window_stored: "window (stored a xs) (slice_at a xs) = xs"
proof -
  have "map (\<lambda>i. stored a xs (a + i)) [0..<length xs] = map (\<lambda>i. xs ! i) [0..<length xs]"
    by (rule map_cong) (simp_all add: stored_def)
  then show ?thesis
    by (simp add: window_def slice_at_def map_nth)
qed

subsection \<open>The scan and the reducer on the window\<close>

text \<open>
  A scan from index \<open>n - 1\<close> returns \<open>-1\<close> when the first \<open>n\<close> positions hold
  no sample, and otherwise the index of the last sample among them. It never reads out of
  range and returns the memory as it was.
\<close>

lemma length_window: "length (window mem vals) = len vals"
  by (simp add: window_def)

lemma nth_window: "i < len vals \<Longrightarrow> window mem vals ! i = mem (array vals + i)"
  by (simp add: window_def)

lemma index_window:
  "0 \<le> i \<Longrightarrow> i < int (len vals) \<Longrightarrow> index vals i mem = (Inr (window mem vals ! nat i), mem)"
  by (simp add: index_def nth_window)

lemma findNonNanIdx_scan:
  "n \<le> len vals \<Longrightarrow>
   \<exists>j. findNonNanIdx vals (int n - 1) mem = (Inr j, mem) \<and>
       (if non_gaps (take n (window mem vals)) = [] then j = - 1
        else 0 \<le> j \<and> j < int n \<and> \<not> IsNaN (window mem vals ! nat j) \<and>
             non_gaps (take n (window mem vals)) =
             non_gaps (take (nat j) (window mem vals)) @ [window mem vals ! nat j])"
proof (induction n)
  case 0
  then show ?case by (simp add: findNonNanIdx.simps)
next
  case (Suc n)
  let ?w = "window mem vals"
  from Suc.prems have n: "n < len vals" by simp
  then have tk: "take (Suc n) ?w = take n ?w @ [?w ! n]"
    by (simp add: take_Suc_conv_app_nth length_window)
  have ix: "index vals (int n) mem = (Inr (?w ! n), mem)"
    using index_window [of "int n" vals mem] n by simp
  show ?case
  proof (cases "IsNaN (?w ! n)")
    case True
    from Suc.IH n obtain j where
      j: "findNonNanIdx vals (int n - 1) mem = (Inr j, mem)"
         "if non_gaps (take n ?w) = [] then j = - 1
          else 0 \<le> j \<and> j < int n \<and> \<not> IsNaN (?w ! nat j) \<and>
             non_gaps (take n ?w) = non_gaps (take (nat j) ?w) @ [?w ! nat j]"
      by auto
    have "findNonNanIdx vals (int (Suc n) - 1) mem = (Inr j, mem)"
      using ix True j(1) by (simp add: findNonNanIdx.simps [of vals "int n"])
    moreover have "non_gaps (take (Suc n) ?w) = non_gaps (take n ?w)"
      using True tk by simp
    ultimately show ?thesis using j(2) by (auto split: if_splits)
  next
    case False
    have "findNonNanIdx vals (int (Suc n) - 1) mem = (Inr (int n), mem)"
      using ix False by (simp add: findNonNanIdx.simps [of vals "int n"])
    then show ?thesis using False tk by auto
  qed
qed

text \<open>
  The reducer by the number of non-gap samples of the window: none, one, or at least two,
  of which \<open>previous\<close> and \<open>latest\<close> are the two most recent.
\<close>

lemma instantValue_short:
  "len values < 2 \<Longrightarrow> instantValue values isRate stepSize mem = (Inr NaN, mem)"
  by (simp add: instantValue_def return_def)

lemma instantValue_none:
  assumes "non_gaps (window mem values) = []"
  shows "instantValue values isRate stepSize mem = (Inr NaN, mem)"
proof (cases "len values < 2")
  case True
  then show ?thesis by (rule instantValue_short)
next
  case False
  from findNonNanIdx_scan [of "len values" "values" mem] assms
  have "findNonNanIdx values (int (len values) - 1) mem = (Inr (- 1), mem)"
    by (auto simp: length_window)
  with False show ?thesis
    by (simp add: instantValue_def bind_def return_def)
qed

lemma instantValue_one:
  assumes "non_gaps (window mem values) = [x]"
  shows "instantValue values isRate stepSize mem = (Inr NaN, mem)"
proof (cases "len values < 2")
  case True
  then show ?thesis by (rule instantValue_short)
next
  case False
  let ?w = "window mem values"
  from findNonNanIdx_scan [of "len values" "values" mem] assms
  obtain j where j: "findNonNanIdx values (int (len values) - 1) mem = (Inr j, mem)"
    "0 \<le> j" "j < int (len values)" "non_gaps (take (nat j) ?w) = []"
    by (auto simp: length_window)
  show ?thesis
  proof (cases "j < 1")
    case True
    with False j(1) show ?thesis
      by (simp add: instantValue_def bind_def return_def)
  next
    case j1: False
    have ix: "index values j mem = (Inr (?w ! nat j), mem)"
      using j by (simp add: index_window)
    from j1 j have "nat (j - 1 + 1) \<le> len values" by simp
    from findNonNanIdx_scan [OF this, of mem] j(4) j1
    have "findNonNanIdx values (j - 1) mem = (Inr (- 1), mem)"
      by (auto simp: nat_diff_distrib split: if_splits)
    with False j1 j(1) ix show ?thesis
      by (simp add: instantValue_def bind_def return_def)
  qed
qed

lemma instantValue_two:
  assumes "non_gaps (window mem values) = pre @ [previous, latest]"
  shows "instantValue values isRate stepSize mem =
    (Inr (if isRate
          then f64_div (if f64_lt latest previous then latest else f64_sub latest previous)
                 (f64_div (f64_of_int (sint stepSize)) Pow10_9)
          else f64_sub latest previous), mem)"
proof -
  let ?w = "window mem values"
  have "length (non_gaps ?w) \<le> length ?w" by (rule length_filter_le)
  with assms have len2: "\<not> int (len values) < 2" by (simp add: length_window)
  from findNonNanIdx_scan [of "len values" "values" mem] assms
  obtain j where j: "findNonNanIdx values (int (len values) - 1) mem = (Inr j, mem)"
    "0 \<le> j" "j < int (len values)"
    "pre @ [previous, latest] = non_gaps (take (nat j) ?w) @ [?w ! nat j]"
    by (auto simp: length_window)
  from j(4) have latest: "?w ! nat j = latest" and pre: "non_gaps (take (nat j) ?w) = pre @ [previous]"
    by (simp_all add: append_eq_append_conv2 Cons_eq_append_conv) 
  from pre have j1: "\<not> j < 1" by (cases "j < 1") auto
  have ixj: "index values j mem = (Inr latest, mem)"
    using j latest by (simp add: index_window)
  from j1 j have "nat j \<le> len values" by simp
  from findNonNanIdx_scan [OF this, of mem] pre j1
  obtain i where i: "findNonNanIdx values (j - 1) mem = (Inr i, mem)"
    "0 \<le> i" "i < j" "pre @ [previous] = non_gaps (take (nat i) ?w) @ [?w ! nat i]"
    by (auto split: if_splits)
  from i(4) have previous: "?w ! nat i = previous" by simp
  have ixi: "index values i mem = (Inr previous, mem)"
    using i j previous by (simp add: index_window)
  from i have i1: "i \<noteq> - 1" by simp
  show ?thesis
    using len2 j(1) j1 ixj i(1) i1 ixi
    by (simp add: instantValue_def bind_def return_def Let_def)
qed

lemma non_gaps_cases:
  obtains "non_gaps w = []" | x where "non_gaps w = [x]"
  | older previous latest where "non_gaps w = older @ [previous, latest]"
proof (cases "non_gaps w" rule: rev_cases)
  case Nil
  then show ?thesis by (rule that(1))
next
  case (snoc ys y)
  then show ?thesis
    by (cases ys rule: rev_cases) (auto intro: that(2) that(3))
qed

lemma instantValue_few:
  assumes "length (non_gaps (window mem values)) < 2"
  shows "instantValue values isRate stepSize mem = (Inr NaN, mem)"
proof (cases "window mem values" rule: non_gaps_cases)
  case 1
  then show ?thesis by (rule instantValue_none)
next
  case (2 x)
  then show ?thesis by (rule instantValue_one)
next
  case (3 older previous latest)
  with assms show ?thesis by simp
qed

lemma instantValue_returns:
  "\<exists>v. instantValue values isRate stepSize mem = (Inr v, mem)"
proof (cases "window mem values" rule: non_gaps_cases)
  case 1
  then show ?thesis by (simp add: instantValue_none)
next
  case (2 x)
  then show ?thesis by (simp add: instantValue_one)
next
  case (3 older previous latest)
  then show ?thesis by (simp add: instantValue_two)
qed

lemma instantValue_window:
  assumes "window mem values = window mem' values'"
  shows "fst (instantValue values isRate stepSize mem) =
         fst (instantValue values' isRate stepSize mem')"
proof (cases "window mem values" rule: non_gaps_cases)
  case 1
  then show ?thesis using assms by (simp add: instantValue_none)
next
  case (2 x)
  then have "non_gaps (window mem' values') = [x]" using assms by simp
  with 2 show ?thesis by (simp add: instantValue_one)
next
  case (3 older previous latest)
  then have "non_gaps (window mem' values') = older @ [previous, latest]" using assms by simp
  with 3 show ?thesis by (simp add: instantValue_two)
qed

lemma findNonNanIdx_frame: "snd (findNonNanIdx vals i mem) = mem"
proof (induction vals i mem rule: findNonNanIdx.induct)
  case (1 vals i mem)
  show ?case
  proof (cases "0 \<le> i \<and> i < int (len vals)")
    case True
    then have ix: "index vals i mem = (Inr (mem (array vals + nat i)), mem)"
      by (simp add: index_def)
    show ?thesis
    proof (cases "IsNaN (mem (array vals + nat i))")
      case nan: True
      from True have "0 \<le> i" by simp
      from "1.IH" [OF this ix [symmetric] refl] nan ix True
      show ?thesis by (simp add: findNonNanIdx.simps [of vals i])
    next
      case False
      with ix True show ?thesis by (simp add: findNonNanIdx.simps [of vals i])
    qed
  next
    case False
    then show ?thesis by (auto simp: index_def findNonNanIdx.simps [of vals i])
  qed
qed

lemma index_window_nat:
  "n < len vals \<Longrightarrow> index vals (int n) mem = (Inr (window mem vals ! n), mem)"
  using index_window [of "int n" vals mem] by simp

lemma findNonNanIdx_skip:
  "window mem vals = xs @ [x] @ replicate k NaN @ rest \<Longrightarrow> \<not> IsNaN x \<Longrightarrow>
   findNonNanIdx vals (int (length xs + k)) mem = (Inr (int (length xs)), mem)"
proof (induction k arbitrary: rest)
  case 0
  from 0(1) have "length (window mem vals) = length xs + 1 + length rest" by simp
  then have "length xs < len vals" by (simp add: length_window)
  then have "index vals (int (length xs)) mem = (Inr (window mem vals ! length xs), mem)"
    by (rule index_window_nat)
  with 0 show ?case by (simp add: findNonNanIdx.simps [of vals "int (length xs)"])
next
  case (Suc k)
  let ?n = "length xs + Suc k"
  have "xs @ [x] @ replicate (Suc k) NaN @ rest = (xs @ [x] @ replicate k NaN) @ NaN # rest"
    by (simp add: replicate_append_same)
  with Suc.prems(1) have w: "window mem vals = (xs @ [x] @ replicate k NaN) @ NaN # rest" by simp
  then have "length (window mem vals) = length xs + 1 + k + 1 + length rest" by simp
  then have "?n < len vals" by (simp add: length_window)
  then have "index vals (int ?n) mem = (Inr (window mem vals ! ?n), mem)"
    by (rule index_window_nat)
  moreover have "window mem vals ! ?n = NaN"
    using nth_append_length [of "xs @ [x] @ replicate k NaN" NaN rest] w by simp
  ultimately have ix: "index vals (int ?n) mem = (Inr NaN, mem)" by (simp only:)
  have "findNonNanIdx vals (int (length xs + k)) mem = (Inr (int (length xs)), mem)"
    using Suc.IH [of "NaN # rest"] w Suc.prems(2) by simp
  moreover have "int ?n - 1 = int (length xs + k)" by simp
  moreover have "0 \<le> int ?n" by simp
  ultimately show ?case
    using ix by (subst findNonNanIdx.simps) (simp only: if_True if_False split_conv sum.case IsNaN.simps simp_thms)
qed

lemma findNonNanIdx_returns:
  assumes "i < int (len vals)"
  shows "\<exists>j. findNonNanIdx vals i mem = (Inr j, mem)"
proof (cases "0 \<le> i")
  case True
  with assms have "nat (i + 1) \<le> len vals" by simp
  from findNonNanIdx_scan [OF this, of mem] True show ?thesis by auto
next
  case False
  then show ?thesis by (simp add: findNonNanIdx.simps [of vals i])
qed

lemma instantValue_is_float64:
  "\<exists>v. instantValue values isRate stepSize mem = (Inr v, mem) \<and> is_float64 v"
proof (cases "window mem values" rule: non_gaps_cases)
  case 1
  then show ?thesis by (simp add: instantValue_none)
next
  case (2 x)
  then show ?thesis by (simp add: instantValue_one)
next
  case (3 older previous latest)
  then show ?thesis by (simp add: instantValue_two is_float64_sub is_float64_div)
qed

subsection \<open>The claims\<close>

text \<open>
  Claim C1. A window with fewer than two positions, or with fewer than two non-gap
  samples whatever its length (empty, all gaps, or one valid sample anywhere), reduces to
  the undefined marker \<open>NaN\<close>, in rate and in delta mode and for every step. The
  reducer returns it as a value and leaves the memory as it was.
\<close>
theorem instantValue_undefined:
  "length (window mem values) < 2 \<or> length (non_gaps (window mem values)) < 2 \<Longrightarrow>
   instantValue values isRate stepSize mem = (Inr NaN, mem)"
proof -
  assume "length (window mem values) < 2 \<or> length (non_gaps (window mem values)) < 2"
  moreover have "length (non_gaps (window mem values)) \<le> length (window mem values)"
    by (rule length_filter_le)
  ultimately have "length (non_gaps (window mem values)) < 2" by linarith
  then show ?thesis by (rule instantValue_few)
qed

theorem instantValue_undefined_witness:
  "(length (window (stored 0 [NaN, f64_of_int 5, NaN]) (slice_at 0 [NaN, f64_of_int 5, NaN])) < 2
    \<or> length (non_gaps (window (stored 0 [NaN, f64_of_int 5, NaN])
          (slice_at 0 [NaN, f64_of_int 5, NaN]))) < 2)
   \<and> instantValue (slice_at 0 [NaN, f64_of_int 5, NaN]) True 1000000000
        (stored 0 [NaN, f64_of_int 5, NaN])
      = (Inr NaN, stored 0 [NaN, f64_of_int 5, NaN])
   \<and> instantValue (slice_at 0 [NaN, f64_of_int 5, NaN]) False 1000000000
        (stored 0 [NaN, f64_of_int 5, NaN])
      = (Inr NaN, stored 0 [NaN, f64_of_int 5, NaN])"
proof -
  have h: "length (window (stored 0 [NaN, f64_of_int 5, NaN]) (slice_at 0 [NaN, f64_of_int 5, NaN])) < 2
    \<or> length (non_gaps (window (stored 0 [NaN, f64_of_int 5, NaN])
          (slice_at 0 [NaN, f64_of_int 5, NaN]))) < 2"
    by (simp add: window_stored not_IsNaN_f64_of_int)
  show ?thesis
    using h instantValue_undefined [OF h, of True 1000000000]
      instantValue_undefined [OF h, of False 1000000000]
    by simp
qed

text \<open>
  Claim C2. In rate mode, when the two most recent non-gap samples of the window satisfy
  \<open>latest < previous\<close>, the reducer takes the counter for reset and returns
  \<open>latest\<close> divided by the step in seconds, \<^verbatim>\<open>float64(stepSize) / math.Pow10(9)\<close>;
  the window \<open>[50, 5]\<close> with a step of one second reduces to \<open>5\<close>.
\<close>
theorem rate_counter_reset:
  "(non_gaps (window mem values) = older @ [previous, latest] \<longrightarrow> f64_lt latest previous \<longrightarrow>
      instantValue values True stepSize mem =
        (Inr (f64_div latest (f64_div (f64_of_int (sint stepSize)) Pow10_9)), mem))
   \<and> (window mem values = [f64_of_int 50, f64_of_int 5] \<longrightarrow>
      instantValue values True 1000000000 mem = (Inr (f64_of_int 5), mem))"
proof (intro conjI impI)
  assume "non_gaps (window mem values) = older @ [previous, latest]" "f64_lt latest previous"
  then show "instantValue values True stepSize mem =
        (Inr (f64_div latest (f64_div (f64_of_int (sint stepSize)) Pow10_9)), mem)"
    by (simp add: instantValue_two)
next
  assume "window mem values = [f64_of_int 50, f64_of_int 5]"
  then have "non_gaps (window mem values) = [] @ [f64_of_int 50, f64_of_int 5]"
    by (simp add: not_IsNaN_f64_of_int)
  then show "instantValue values True 1000000000 mem = (Inr (f64_of_int 5), mem)"
    by (simp only: instantValue_two sint_1e9 one_second lt_5_50 div_5_1 if_True)
qed

theorem rate_counter_reset_witness:
  "non_gaps (window (stored 0 [f64_of_int 50, f64_of_int 5]) (slice_at 0 [f64_of_int 50, f64_of_int 5]))
     = [] @ [f64_of_int 50, f64_of_int 5]
   \<and> f64_lt (f64_of_int 5) (f64_of_int 50)
   \<and> window (stored 0 [f64_of_int 50, f64_of_int 5]) (slice_at 0 [f64_of_int 50, f64_of_int 5])
     = [f64_of_int 50, f64_of_int 5]
   \<and> instantValue (slice_at 0 [f64_of_int 50, f64_of_int 5]) True 1000000000
        (stored 0 [f64_of_int 50, f64_of_int 5])
     = (Inr (f64_of_int 5), stored 0 [f64_of_int 50, f64_of_int 5])
   \<and> f64_div (f64_of_int 5) (f64_div (f64_of_int (sint (1000000000 :: 64 word))) Pow10_9)
     = f64_of_int 5"
  using rate_counter_reset [of "stored 0 [f64_of_int 50, f64_of_int 5]"
      "slice_at 0 [f64_of_int 50, f64_of_int 5]" "[]" "f64_of_int 50" "f64_of_int 5" 1000000000]
  by (simp add: window_stored not_IsNaN_f64_of_int lt_5_50 one_second div_5_1)

text \<open>
  Claim C3. In rate mode, when the two most recent non-gap samples of the window satisfy
  \<open>latest \<ge> previous\<close>, the reducer returns \<open>latest - previous\<close> divided by the
  step in seconds; the window \<open>[10, 20]\<close> with a step of one second reduces to \<open>10\<close>.
\<close>
theorem rate_no_reset:
  "(non_gaps (window mem values) = older @ [previous, latest] \<longrightarrow> f64_ge latest previous \<longrightarrow>
      instantValue values True stepSize mem =
        (Inr (f64_div (f64_sub latest previous)
               (f64_div (f64_of_int (sint stepSize)) Pow10_9)), mem))
   \<and> (window mem values = [f64_of_int 10, f64_of_int 20] \<longrightarrow>
      instantValue values True 1000000000 mem = (Inr (f64_of_int 10), mem))"
proof (intro conjI impI)
  assume w: "non_gaps (window mem values) = older @ [previous, latest]"
    and ge: "f64_ge latest previous"
  have "previous \<in> set (non_gaps (window mem values))"
    and "latest \<in> set (non_gaps (window mem values))"
    by (simp_all add: w)
  then have "\<not> IsNaN previous" "\<not> IsNaN latest" by simp_all
  with ge have "\<not> f64_lt latest previous" by (simp add: f64_ge_iff)
  with w show "instantValue values True stepSize mem =
        (Inr (f64_div (f64_sub latest previous)
               (f64_div (f64_of_int (sint stepSize)) Pow10_9)), mem)"
    by (simp add: instantValue_two)
next
  assume "window mem values = [f64_of_int 10, f64_of_int 20]"
  then have "non_gaps (window mem values) = [] @ [f64_of_int 10, f64_of_int 20]"
    by (simp add: not_IsNaN_f64_of_int)
  moreover have "\<not> f64_lt (f64_of_int 20) (f64_of_int 10)"
    using ge_20_10 by (simp add: f64_ge_iff not_IsNaN_f64_of_int)
  ultimately show "instantValue values True 1000000000 mem = (Inr (f64_of_int 10), mem)"
    by (simp only: instantValue_two sint_1e9 one_second sub_20_10 div_10_1 if_True if_False)
qed

theorem rate_no_reset_witness:
  "non_gaps (window (stored 0 [f64_of_int 10, f64_of_int 20]) (slice_at 0 [f64_of_int 10, f64_of_int 20]))
     = [] @ [f64_of_int 10, f64_of_int 20]
   \<and> f64_ge (f64_of_int 20) (f64_of_int 10)
   \<and> window (stored 0 [f64_of_int 10, f64_of_int 20]) (slice_at 0 [f64_of_int 10, f64_of_int 20])
     = [f64_of_int 10, f64_of_int 20]
   \<and> instantValue (slice_at 0 [f64_of_int 10, f64_of_int 20]) True 1000000000
        (stored 0 [f64_of_int 10, f64_of_int 20])
     = (Inr (f64_of_int 10), stored 0 [f64_of_int 10, f64_of_int 20])
   \<and> f64_div (f64_sub (f64_of_int 20) (f64_of_int 10))
        (f64_div (f64_of_int (sint (1000000000 :: 64 word))) Pow10_9)
     = f64_of_int 10"
  using rate_no_reset [of "stored 0 [f64_of_int 10, f64_of_int 20]"
      "slice_at 0 [f64_of_int 10, f64_of_int 20]" "[]" "f64_of_int 10" "f64_of_int 20" 1000000000]
  by (simp add: window_stored not_IsNaN_f64_of_int ge_20_10 one_second sub_20_10 div_10_1)

text \<open>
  Claim C4. In delta mode, a window with at least two non-gap samples reduces to
  \<open>latest - previous\<close> of its two most recent ones: no reset adjustment, whatever their
  order, and no division by the step, so that the result is the same for every step (on
  every window); the window \<open>[50, 5]\<close> reduces to \<open>-45\<close>.
\<close>
theorem delta_difference:
  "(non_gaps (window mem values) = older @ [previous, latest] \<longrightarrow>
      instantValue values False stepSize mem = (Inr (f64_sub latest previous), mem))
   \<and> instantValue values False stepSize mem = instantValue values False stepSize' mem
   \<and> (window mem values = [f64_of_int 50, f64_of_int 5] \<longrightarrow>
      instantValue values False 1000000000 mem = (Inr (f64_of_int (- 45)), mem))"
proof (intro conjI impI)
  assume "non_gaps (window mem values) = older @ [previous, latest]"
  then show "instantValue values False stepSize mem = (Inr (f64_sub latest previous), mem)"
    by (simp add: instantValue_two)
next
  show "instantValue values False stepSize mem = instantValue values False stepSize' mem"
  proof (cases "window mem values" rule: non_gaps_cases)
    case 1
    then show ?thesis by (simp add: instantValue_none)
  next
    case (2 x)
    then show ?thesis by (simp add: instantValue_one)
  next
    case (3 older previous latest)
    then show ?thesis by (simp add: instantValue_two)
  qed
next
  assume "window mem values = [f64_of_int 50, f64_of_int 5]"
  then have "non_gaps (window mem values) = [] @ [f64_of_int 50, f64_of_int 5]"
    by (simp add: not_IsNaN_f64_of_int)
  then show "instantValue values False 1000000000 mem = (Inr (f64_of_int (- 45)), mem)"
    by (simp only: instantValue_two sub_5_50 if_False)
qed

theorem delta_difference_witness:
  "non_gaps (window (stored 0 [f64_of_int 50, f64_of_int 5]) (slice_at 0 [f64_of_int 50, f64_of_int 5]))
     = [] @ [f64_of_int 50, f64_of_int 5]
   \<and> f64_lt (f64_of_int 5) (f64_of_int 50)
   \<and> window (stored 0 [f64_of_int 50, f64_of_int 5]) (slice_at 0 [f64_of_int 50, f64_of_int 5])
     = [f64_of_int 50, f64_of_int 5]
   \<and> instantValue (slice_at 0 [f64_of_int 50, f64_of_int 5]) False 1000000000
        (stored 0 [f64_of_int 50, f64_of_int 5])
     = (Inr (f64_of_int (- 45)), stored 0 [f64_of_int 50, f64_of_int 5])
   \<and> instantValue (slice_at 0 [f64_of_int 50, f64_of_int 5]) False 7
        (stored 0 [f64_of_int 50, f64_of_int 5])
     = (Inr (f64_sub (f64_of_int 5) (f64_of_int 50)), stored 0 [f64_of_int 50, f64_of_int 5])"
  using delta_difference [of "stored 0 [f64_of_int 50, f64_of_int 5]"
      "slice_at 0 [f64_of_int 50, f64_of_int 5]" "[]" "f64_of_int 50" "f64_of_int 5" 1000000000 7]
    delta_difference [of "stored 0 [f64_of_int 50, f64_of_int 5]"
      "slice_at 0 [f64_of_int 50, f64_of_int 5]" "[]" "f64_of_int 50" "f64_of_int 5" 7 7]
  by (simp add: window_stored not_IsNaN_f64_of_int lt_5_50 sub_5_50)

text \<open>
  Claim C5. The reducer scans backwards from the newest position for the most recent non-gap
  sample, at index \<open>i_last\<close>, then backwards from \<open>i_last - 1\<close> for the next one,
  at index \<open>i_prev\<close>, over any number of gaps between the two (and behind the latest).
  The result is made of the two samples and the step only, not of the distance
  \<open>i_last - i_prev\<close>; the window \<open>[10, NaN, NaN, 40]\<close> with a step of one second
  reduces to \<open>30\<close> in rate mode.
\<close>
theorem gap_tolerance:
  "(\<not> IsNaN previous \<and> \<not> IsNaN latest \<and>
    window mem values =
      older @ [previous] @ replicate gaps NaN @ [latest] @ replicate trailing NaN \<longrightarrow>
      findNonNanIdx values (int (len values) - 1) mem =
        (Inr (int (length older + gaps + 1)), mem)
      \<and> findNonNanIdx values (int (length older + gaps + 1) - 1) mem =
        (Inr (int (length older)), mem)
      \<and> instantValue values True stepSize mem =
        (Inr (f64_div (if f64_lt latest previous then latest else f64_sub latest previous)
               (f64_div (f64_of_int (sint stepSize)) Pow10_9)), mem))
   \<and> (window mem values = [f64_of_int 10, NaN, NaN, f64_of_int 40] \<longrightarrow>
      instantValue values True 1000000000 mem = (Inr (f64_of_int 30), mem))"
proof (intro conjI impI)
  assume a: "\<not> IsNaN previous \<and> \<not> IsNaN latest \<and>
    window mem values =
      older @ [previous] @ replicate gaps NaN @ [latest] @ replicate trailing NaN"
  let ?xs = "older @ [previous] @ replicate gaps NaN"
  from a have w1: "window mem values = ?xs @ [latest] @ replicate trailing NaN @ []"
    by simp
  from a have nl: "\<not> IsNaN latest" and np: "\<not> IsNaN previous" by simp_all
  from a have "length (window mem values) = length older + gaps + trailing + 2" by simp
  then have "int (len values) - 1 = int (length ?xs + trailing)"
    by (simp add: length_window)
  then have "findNonNanIdx values (int (len values) - 1) mem =
      findNonNanIdx values (int (length ?xs + trailing)) mem"
    by (simp only:)
  also have "\<dots> = (Inr (int (length ?xs)), mem)"
    using w1 nl by (rule findNonNanIdx_skip)
  also have "int (length ?xs) = int (length older + gaps + 1)"
    by simp
  finally show "findNonNanIdx values (int (len values) - 1) mem =
      (Inr (int (length older + gaps + 1)), mem)" .
  from a have w2: "window mem values =
      older @ [previous] @ replicate gaps NaN @ ([latest] @ replicate trailing NaN)"
    by simp
  have "findNonNanIdx values (int (length older + gaps)) mem = (Inr (int (length older)), mem)"
    using w2 np by (rule findNonNanIdx_skip)
  moreover have "int (length older + gaps + 1) - 1 = int (length older + gaps)"
    by simp
  ultimately show "findNonNanIdx values (int (length older + gaps + 1) - 1) mem =
      (Inr (int (length older)), mem)"
    by (simp only:)
  from a have "non_gaps (window mem values) = non_gaps older @ [previous, latest]"
    by simp
  then show "instantValue values True stepSize mem =
      (Inr (f64_div (if f64_lt latest previous then latest else f64_sub latest previous)
             (f64_div (f64_of_int (sint stepSize)) Pow10_9)), mem)"
    by (simp add: instantValue_two)
next
  assume "window mem values = [f64_of_int 10, NaN, NaN, f64_of_int 40]"
  then have "non_gaps (window mem values) = [] @ [f64_of_int 10, f64_of_int 40]"
    by (simp add: not_IsNaN_f64_of_int)
  then show "instantValue values True 1000000000 mem = (Inr (f64_of_int 30), mem)"
    using lt_40_10
    by (simp only: instantValue_two sint_1e9 one_second sub_40_10 div_30_1 if_True if_False)
qed

theorem gap_tolerance_witness:
  "\<not> IsNaN (f64_of_int 10) \<and> \<not> IsNaN (f64_of_int 40)
   \<and> window (stored 0 [f64_of_int 10, NaN, NaN, f64_of_int 40])
        (slice_at 0 [f64_of_int 10, NaN, NaN, f64_of_int 40])
     = [] @ [f64_of_int 10] @ replicate 2 NaN @ [f64_of_int 40] @ replicate 0 NaN
   \<and> findNonNanIdx (slice_at 0 [f64_of_int 10, NaN, NaN, f64_of_int 40]) 3
        (stored 0 [f64_of_int 10, NaN, NaN, f64_of_int 40])
     = (Inr 3, stored 0 [f64_of_int 10, NaN, NaN, f64_of_int 40])
   \<and> findNonNanIdx (slice_at 0 [f64_of_int 10, NaN, NaN, f64_of_int 40]) 2
        (stored 0 [f64_of_int 10, NaN, NaN, f64_of_int 40])
     = (Inr 0, stored 0 [f64_of_int 10, NaN, NaN, f64_of_int 40])
   \<and> instantValue (slice_at 0 [f64_of_int 10, NaN, NaN, f64_of_int 40]) True 1000000000
        (stored 0 [f64_of_int 10, NaN, NaN, f64_of_int 40])
     = (Inr (f64_of_int 30), stored 0 [f64_of_int 10, NaN, NaN, f64_of_int 40])"
proof -
  let ?w = "[f64_of_int 10, NaN, NaN, f64_of_int 40]"
  have w: "window (stored 0 ?w) (slice_at 0 ?w)
      = [] @ [f64_of_int 10] @ replicate 2 NaN @ [f64_of_int 40] @ replicate 0 NaN"
    by (simp add: window_stored numeral_2_eq_2)
  have h: "\<not> IsNaN (f64_of_int 10) \<and> \<not> IsNaN (f64_of_int 40) \<and>
      window (stored 0 ?w) (slice_at 0 ?w)
      = [] @ [f64_of_int 10] @ replicate 2 NaN @ [f64_of_int 40] @ replicate 0 NaN"
    using w by (simp add: not_IsNaN_f64_of_int)
  have w': "window (stored 0 ?w) (slice_at 0 ?w) = ?w"
    by (rule window_stored)
  have l: "int (len (slice_at 0 ?w)) - 1 = 3" "int (length ([] :: float64 list) + 2 + 1) - 1 = 2"
    "int (length ([] :: float64 list) + 2 + 1) = 3" "int (length ([] :: float64 list)) = 0"
    "(3::int) - 1 = 2"
    by (simp_all add: slice_at_def)
  from gap_tolerance [of "f64_of_int 10" "f64_of_int 40" "stored 0 ?w" "slice_at 0 ?w"
      "[]" 2 0 1000000000] h w'
  have "findNonNanIdx (slice_at 0 ?w) (int (len (slice_at 0 ?w)) - 1) (stored 0 ?w) =
        (Inr (int (length ([] :: float64 list) + 2 + 1)), stored 0 ?w)
      \<and> findNonNanIdx (slice_at 0 ?w) (int (length ([] :: float64 list) + 2 + 1) - 1) (stored 0 ?w) =
        (Inr (int (length ([] :: float64 list))), stored 0 ?w)
      \<and> instantValue (slice_at 0 ?w) True 1000000000 (stored 0 ?w) =
        (Inr (f64_of_int 30), stored 0 ?w)"
    by blast
  then show ?thesis
    using h unfolding l by blast
qed

text \<open>
  Claim C6. For a mode token that is neither \<^verbatim>\<open>"irate"\<close> nor \<^verbatim>\<open>"idelta"\<close>,
  \<^verbatim>\<open>NewRateOp\<close> returns no parameters and an error whose message carries the token;
  for each of the two tokens it returns parameters and no error. The second half rests on
  \<open>newBaseOp\<close> as modelled above.
\<close>
theorem NewRateOp_unknown_type:
  "(optype \<noteq> IRateTemporalType \<and> optype \<noteq> IDeltaTemporalType \<longrightarrow>
      NewRateOp args optype = (None, Some (Errorf (''unknown rate type: '' @ optype))))
   \<and> (\<exists>params. NewRateOp args IRateTemporalType = (Some params, None))
   \<and> (\<exists>params. NewRateOp args IDeltaTemporalType = (Some params, None))"
  by (simp add: NewRateOp_def newBaseOp_def)

theorem NewRateOp_unknown_type_witness:
  "''sum_over_time'' \<noteq> IRateTemporalType \<and> ''sum_over_time'' \<noteq> IDeltaTemporalType
   \<and> NewRateOp ([] :: nat list) ''sum_over_time''
     = (None, Some (Errorf ''unknown rate type: sum_over_time''))
   \<and> NewRateOp ([] :: nat list) ''irate''
     = (Some \<lparr>operatorType = ''irate'', processorFn = NewRateNode, aggFunc = None\<rparr>, None)
   \<and> NewRateOp ([] :: nat list) ''idelta''
     = (Some \<lparr>operatorType = ''idelta'', processorFn = NewRateNode, aggFunc = None\<rparr>, None)"
  using NewRateOp_unknown_type [of "''sum_over_time''" "[] :: nat list"]
  by (simp add: IRateTemporalType_def IDeltaTemporalType_def NewRateOp_def newBaseOp_def)

text \<open>
  Claim C7. The reducer is total: for every slice, memory, mode and step it returns a value,
  never a panic (no index it reads is out of range); so does the scan from every starting
  index below the length of the slice; and a window with fewer than two non-gap samples
  gives the undefined marker as that value. That the scan ends is the termination proof
  of \<open>findNonNanIdx\<close>.
\<close>
theorem instantValue_total:
  "(\<exists>v. instantValue values isRate stepSize mem = (Inr v, mem))
   \<and> (startingIdx < int (len values) \<longrightarrow>
      (\<exists>i. findNonNanIdx values startingIdx mem = (Inr i, mem)))
   \<and> (length (non_gaps (window mem values)) < 2 \<longrightarrow>
      instantValue values isRate stepSize mem = (Inr NaN, mem))"
  using instantValue_returns [of "values" isRate stepSize mem]
    instantValue_few [of mem "values" isRate stepSize]
    findNonNanIdx_returns [of startingIdx "values" mem]
  by blast

theorem instantValue_total_witness:
  "length (non_gaps (window (stored 0 []) (slice_at 0 []))) < 2
   \<and> instantValue (slice_at 0 []) True 0 (stored 0 []) = (Inr NaN, stored 0 [])
   \<and> length (non_gaps (window (stored 3 [NaN, NaN]) (slice_at 3 [NaN, NaN]))) < 2
   \<and> 1 < int (len (slice_at 3 [NaN, NaN]))
   \<and> findNonNanIdx (slice_at 3 [NaN, NaN]) 1 (stored 3 [NaN, NaN]) = (Inr (- 1), stored 3 [NaN, NaN])
   \<and> instantValue (slice_at 3 [NaN, NaN]) False 0 (stored 3 [NaN, NaN])
     = (Inr NaN, stored 3 [NaN, NaN])"
proof -
  have l: "(1::int) < int (len (slice_at 3 [NaN, NaN]))" by (simp add: slice_at_def)
  then have "nat (1 + 1) \<le> len (slice_at 3 [NaN, NaN])" by simp
  from findNonNanIdx_scan [OF this, of "stored 3 [NaN, NaN]"]
  have "findNonNanIdx (slice_at 3 [NaN, NaN]) 1 (stored 3 [NaN, NaN]) = (Inr (- 1), stored 3 [NaN, NaN])"
    by (simp add: window_stored)
  with l show ?thesis
    using instantValue_total [of "slice_at 0 []" True 0 "stored 0 []" 0]
      instantValue_total [of "slice_at 3 [NaN, NaN]" False 0 "stored 3 [NaN, NaN]" 1]
    by (simp add: window_stored)
qed

text \<open>
  Claim C8. The result of the reducer is a function of the contents of the window, the mode
  and the step: two slices with the same contents, wherever they lie and whatever else
  the two memories hold, reduce to the same result; and a call gives the same result
  whether or not any other call of the reducer was made before it.
\<close>
theorem instantValue_deterministic:
  "(window mem values = window mem' values' \<longrightarrow>
      fst (instantValue values isRate stepSize mem) =
      fst (instantValue values' isRate stepSize mem'))
   \<and> fst (instantValue values isRate stepSize
            (snd (instantValue values' isRate' stepSize' mem))) =
      fst (instantValue values isRate stepSize mem)"
proof (intro conjI impI)
  assume "window mem values = window mem' values'"
  then show "fst (instantValue values isRate stepSize mem) =
      fst (instantValue values' isRate stepSize mem')"
    by (rule instantValue_window)
next
  obtain v where "instantValue values' isRate' stepSize' mem = (Inr v, mem)"
    using instantValue_returns by blast
  then show "fst (instantValue values isRate stepSize
            (snd (instantValue values' isRate' stepSize' mem))) =
      fst (instantValue values isRate stepSize mem)"
    by simp
qed

theorem instantValue_deterministic_witness:
  "window (stored 0 [f64_of_int 50, f64_of_int 5]) (slice_at 0 [f64_of_int 50, f64_of_int 5])
     = window (stored 7 [f64_of_int 50, f64_of_int 5]) (slice_at 7 [f64_of_int 50, f64_of_int 5])
   \<and> stored 0 [f64_of_int 50, f64_of_int 5] \<noteq> stored 7 [f64_of_int 50, f64_of_int 5]
   \<and> fst (instantValue (slice_at 0 [f64_of_int 50, f64_of_int 5]) True 1000000000
          (stored 0 [f64_of_int 50, f64_of_int 5]))
     = fst (instantValue (slice_at 7 [f64_of_int 50, f64_of_int 5]) True 1000000000
          (stored 7 [f64_of_int 50, f64_of_int 5]))"
proof -
  let ?w = "[f64_of_int 50, f64_of_int 5]"
  have h: "window (stored 0 ?w) (slice_at 0 ?w) = window (stored 7 ?w) (slice_at 7 ?w)"
    by (simp only: window_stored)
  have "stored 0 ?w 0 \<noteq> stored 7 ?w 0"
    by (simp add: stored_def f64_50)
  then have "stored 0 ?w \<noteq> stored 7 ?w" by metis
  with h instantValue_deterministic [of "stored 0 ?w" "slice_at 0 ?w" "stored 7 ?w"
      "slice_at 7 ?w" True 1000000000 True 1000000000]
  show ?thesis by blast
qed

text \<open>
  Claim C9. The scan and the reducer leave the memory as they found it, so every position
  of the window holds after the call what it held before.
\<close>
theorem instantValue_frame:
  "snd (findNonNanIdx vals startingIdx mem) = mem
   \<and> snd (instantValue values isRate stepSize mem) = mem
   \<and> window (snd (instantValue values isRate stepSize mem)) values = window mem values"
proof -
  obtain v where "instantValue values isRate stepSize mem = (Inr v, mem)"
    using instantValue_returns by blast
  then show ?thesis by (simp add: findNonNanIdx_frame)
qed

theorem instantValue_frame_witness:
  "snd (findNonNanIdx (slice_at 0 [f64_of_int 50, f64_of_int 5]) 1
          (stored 0 [f64_of_int 50, f64_of_int 5]))
     = stored 0 [f64_of_int 50, f64_of_int 5]
   \<and> snd (instantValue (slice_at 0 [f64_of_int 50, f64_of_int 5]) True 1000000000
          (stored 0 [f64_of_int 50, f64_of_int 5]))
     = stored 0 [f64_of_int 50, f64_of_int 5]
   \<and> window (snd (instantValue (slice_at 0 [f64_of_int 50, f64_of_int 5]) True 1000000000
          (stored 0 [f64_of_int 50, f64_of_int 5]))) (slice_at 0 [f64_of_int 50, f64_of_int 5])
     = [f64_of_int 50, f64_of_int 5]"
  using instantValue_frame [of "slice_at 0 [f64_of_int 50, f64_of_int 5]" 1
      "stored 0 [f64_of_int 50, f64_of_int 5]" "slice_at 0 [f64_of_int 50, f64_of_int 5]"
      True 1000000000]
  by (simp add: window_stored)

text \<open>
  Claim C10. When \<^verbatim>\<open>NewRateOp\<close> succeeds, the processor built from the parameters it
  returns holds one of the two mode tokens, \<^verbatim>\<open>Process\<close> is \<open>instantValue\<close> with
  \<open>isRate\<close> true exactly for \<^verbatim>\<open>"irate"\<close> and with the step of the options, and it
  returns a value: the branch \<^verbatim>\<open>panic("unknown rate type")\<close> is not taken. The
  parameters are those of \<open>newBaseOp\<close> as modelled above.
\<close>
theorem Process_never_panics:
  "NewRateOp args optype = (Some params, err) \<longrightarrow>
     (operatorType (op (call (processorFn params) params ctrl opts)) = IRateTemporalType
      \<or> operatorType (op (call (processorFn params) params ctrl opts)) = IDeltaTemporalType)
     \<and> Process (call (processorFn params) params ctrl opts) values mem =
        instantValue values (optype = IRateTemporalType) (Step (TimeSpec opts)) mem
     \<and> (\<exists>v. Process (call (processorFn params) params ctrl opts) values mem = (Inr v, mem))"
proof
  assume a: "NewRateOp args optype = (Some params, err)"
  then have known: "optype = IRateTemporalType \<or> optype = IDeltaTemporalType"
    by (auto simp: NewRateOp_def split: if_splits)
  with a have params: "params = \<lparr>operatorType = optype, processorFn = NewRateNode, aggFunc = None\<rparr>"
    by (auto simp: NewRateOp_def newBaseOp_def)
  have ne: "IDeltaTemporalType \<noteq> IRateTemporalType"
    by (simp add: IRateTemporalType_def IDeltaTemporalType_def)
  have p: "Process (call (processorFn params) params ctrl opts) values mem =
        instantValue values (optype = IRateTemporalType) (Step (TimeSpec opts)) mem"
    using known ne by (auto simp: Process_def params newRateNode_def)
  show "(operatorType (op (call (processorFn params) params ctrl opts)) = IRateTemporalType
      \<or> operatorType (op (call (processorFn params) params ctrl opts)) = IDeltaTemporalType)
     \<and> Process (call (processorFn params) params ctrl opts) values mem =
        instantValue values (optype = IRateTemporalType) (Step (TimeSpec opts)) mem
     \<and> (\<exists>v. Process (call (processorFn params) params ctrl opts) values mem = (Inr v, mem))"
    using known p instantValue_returns [of "values" "optype = IRateTemporalType" "Step (TimeSpec opts)" mem]
    by (auto simp: params newRateNode_def)
qed

theorem Process_never_panics_witness:
  "NewRateOp ([] :: nat list) ''idelta''
     = (Some \<lparr>operatorType = ''idelta'', processorFn = NewRateNode, aggFunc = None\<rparr>, None)
   \<and> Process (call NewRateNode \<lparr>operatorType = ''idelta'', processorFn = NewRateNode, aggFunc = None\<rparr>
         None \<lparr>TimeSpec = \<lparr>Step = 1000000000\<rparr>\<rparr>)
        (slice_at 0 [f64_of_int 50, f64_of_int 5]) (stored 0 [f64_of_int 50, f64_of_int 5])
     = (Inr (f64_of_int (- 45)), stored 0 [f64_of_int 50, f64_of_int 5])"
proof -
  let ?p = "\<lparr>operatorType = ''idelta'', processorFn = NewRateNode, aggFunc = None\<rparr>"
  let ?w = "[f64_of_int 50, f64_of_int 5]"
  have h: "NewRateOp ([] :: nat list) ''idelta'' = (Some ?p, None)"
    by (simp add: NewRateOp_def newBaseOp_def IRateTemporalType_def IDeltaTemporalType_def)
  have "non_gaps (window (stored 0 ?w) (slice_at 0 ?w)) = [] @ ?w"
    by (simp add: window_stored not_IsNaN_f64_of_int)
  then have "instantValue (slice_at 0 ?w) False 1000000000 (stored 0 ?w)
      = (Inr (f64_of_int (- 45)), stored 0 ?w)"
    by (simp only: instantValue_two sub_5_50 if_False)
  with h Process_never_panics [of "[] :: nat list" "''idelta''" ?p None None
      "\<lparr>TimeSpec = \<lparr>Step = 1000000000\<rparr>\<rparr>" "slice_at 0 ?w" "stored 0 ?w"]
  show ?thesis
    by (simp add: IRateTemporalType_def)
qed

end
